theory Spec2Isabelle
  imports Main
begin

section \<open>Threaded GOAD deployment: the data model\<close>

text \<open>
  The development embeds \<^verbatim>\<open>ansible/scripts/deploy-goad-threaded.py\<close>.

  The field \<^verbatim>\<open>output\<close> of a box is called \<open>output_lines\<close> here.
  Python strings that the script only compares, stores or prints (box names, hosts,
  status values, paths) are HOL strings. Captured process output is sliced by code
  point (\<^verbatim>\<open>stderr[:200]\<close>, \<^verbatim>\<open>error_output[0][:100]\<close>), so it is a
  list of code points, with 10 the line feed. Time stamps (\<^verbatim>\<open>datetime.now()\<close>)
  are integers, in seconds; a duration is their difference.
\<close>

type_synonym pystr = "nat list"

text \<open>\<^verbatim>\<open>class DeploymentBox\<close>: the fields of the constructor, with its initial values.\<close>

record box =
  name :: string
  host :: string
  network_id :: int
  status :: string
  start_time :: "int option"
  end_time :: "int option"
  output_lines :: "pystr list"
  error_output :: "pystr list"
  attempts :: int
  log_file :: "string option"

definition DeploymentBox :: "string \<Rightarrow> string \<Rightarrow> int \<Rightarrow> box" where
  "DeploymentBox nm h nid =
     \<lparr>name = nm, host = h, network_id = nid, status = ''pending'',
      start_time = None, end_time = None, output_lines = [], error_output = [],
      attempts = 0, log_file = None\<rparr>"

text \<open>
  The part of \<^verbatim>\<open>GOADDeployer.__init__\<close> that the deployment reads: the
  semaphore is created with \<open>max_threads\<close> permits, the retry loop is bounded by
  \<open>max_retries\<close>, log files live under \<open>log_dir\<close>. Both numbers are Python ints
  taken from the command line (\<^verbatim>\<open>type=int\<close>), so any integer can arrive.
\<close>

record deployer =
  max_threads :: int
  max_retries :: int
  log_dir :: string

subsection \<open>What the world does at one attempt\<close>

text \<open>
  \<^verbatim>\<open>subprocess.run(ssh_cmd, capture_output=True, text=True, timeout=7200)\<close>
  either returns a result (return code, stdout, stderr), raises
  \<^verbatim>\<open>subprocess.TimeoutExpired\<close>, or raises some other \<^verbatim>\<open>Exception\<close>
  (for instance \<^verbatim>\<open>FileNotFoundError\<close> when \<^verbatim>\<open>sshpass\<close> is not installed).
  \<open>Raised\<close> also stands for an exception of the writes to the box's log file that
  follow the call (in the body and in the timeout handler): they happen before the
  box is touched again and reach the same outer handler. An exception of the outer
  handler's own write to the log file comes after its two assignments and changes
  no box.
\<close>

datatype outcome = Completed int pystr pystr | TimeoutExpired | Raised

text \<open>
  One attempt of one box, as scripted by the environment: the clock read when the
  attempt starts (line 403), what the remote job does, and the clock read when the
  attempt is over (lines 448, 491 and 499).
\<close>

record attempt =
  started_at :: int
  outcome :: outcome
  finished_at :: int

type_synonym script = "int \<Rightarrow> attempt"

text \<open>Python's \<^verbatim>\<open>s.split('\n')\<close>: never the empty list; \<^verbatim>\<open>''.split('\n') == ['']\<close>.\<close>

fun split_nl :: "pystr \<Rightarrow> pystr list" where
  "split_nl [] = [[]]"
| "split_nl (c # cs) =
     (if c = 10 then [] # split_nl cs
      else (case split_nl cs of [] \<Rightarrow> [[c]] | l # ls \<Rightarrow> (c # l) # ls))"

section \<open>One box: \<^verbatim>\<open>deploy_goad_on_box\<close>\<close>

text \<open>
  Lines 397 to 407, the head of one loop iteration: \<^verbatim>\<open>attempt += 1\<close> has
  been done by the caller (\<open>n\<close> is the new value), \<^verbatim>\<open>box.attempts = attempt\<close>,
  and under the lock \<^verbatim>\<open>box.status = "running"\<close> and the start time, once.
\<close>

definition begin_attempt :: "attempt \<Rightarrow> int \<Rightarrow> box \<Rightarrow> box" where
  "begin_attempt a n b =
     b\<lparr>attempts := n,
       status := ''running'',
       start_time := (case start_time b of None \<Rightarrow> Some (started_at a) | Some t \<Rightarrow> Some t)\<rparr>"

text \<open>
  How an iteration leaves the loop body: \<^verbatim>\<open>success = True\<close>; the retry branch
  that ends in \<^verbatim>\<open>time.sleep(10)\<close>; the last-attempt branch (no sleep); or an
  exception that leaves the \<^verbatim>\<open>while\<close> loop for the outer handler.
\<close>

datatype ctl = Success | Sleep | NoSleep | Exception

text \<open>
  Lines 425 to 511 for attempt \<open>n\<close>, after the call has come back. The order of the
  assignments is the source's: on a returned result \<^verbatim>\<open>box.end_time\<close> is
  assigned first, whatever the return code; the status changes only on return code 0
  and on the last attempt; \<^verbatim>\<open>box.output\<close> is assigned last. The timeout handler
  touches the box on the last attempt only. The outer handler
  (\<^verbatim>\<open>except Exception\<close>) sets \<^verbatim>\<open>"error"\<close> and the end time.
\<close>

definition conclude_attempt :: "int \<Rightarrow> attempt \<Rightarrow> int \<Rightarrow> box \<Rightarrow> box \<times> ctl" where
  "conclude_attempt R a n b =
     (case outcome a of
        Completed rc out err \<Rightarrow>
          (let b1 = b\<lparr>end_time := Some (finished_at a)\<rparr> in
           if rc = 0 then (b1\<lparr>status := ''success'', output_lines := split_nl out\<rparr>, Success)
           else
             (let b2 = b1\<lparr>error_output := split_nl err\<rparr> in
              if n < R then (b2\<lparr>output_lines := split_nl out\<rparr>, Sleep)
              else (b2\<lparr>status := ''failed'', output_lines := split_nl out\<rparr>, NoSleep)))
      | TimeoutExpired \<Rightarrow>
          (if n < R then (b, Sleep)
           else (b\<lparr>status := ''timeout'', end_time := Some (finished_at a)\<rparr>, NoSleep))
      | Raised \<Rightarrow>
          (b\<lparr>status := ''error'', end_time := Some (finished_at a)\<rparr>, Exception))"

text \<open>
  The loop \<^verbatim>\<open>while attempt < self.max_retries and not success\<close>, from the loop
  head with the locals \<open>attempt = n\<close> and \<open>success = s\<close>. An exception ends it.
\<close>

function attempt_loop :: "int \<Rightarrow> script \<Rightarrow> int \<Rightarrow> bool \<Rightarrow> box \<Rightarrow> box" where
  "attempt_loop R job n s b =
     (if n < R \<and> \<not> s then
        (case conclude_attempt R (job (n + 1)) (n + 1) (begin_attempt (job (n + 1)) (n + 1) b) of
           (b', Exception) \<Rightarrow> b'
         | (b', c) \<Rightarrow> attempt_loop R job (n + 1) (c = Success) b')
      else b)"
  by pat_completeness auto
termination
  by (relation "measure (\<lambda>(R, job, n, s, b). nat (R - n))") auto

subsection \<open>Paths\<close>

text \<open>
  \<^verbatim>\<open>self.log_dir = Path(log_dir)\<close> and the log file of a box is
  \<^verbatim>\<open>self.log_dir / f"deploy_{box.name}_{timestamp}.log"\<close>: \<^verbatim>\<open>pathlib\<close> paths of
  the POSIX flavour (the script runs \<^verbatim>\<open>sshpass\<close> and \<^verbatim>\<open>ssh\<close>). A path is its
  root and its parts. The root is \<^verbatim>\<open>/\<close> for a string that starts with one slash or
  with three and more, \<^verbatim>\<open>//\<close> for exactly two, and empty otherwise
  (\<^verbatim>\<open>posixpath.splitroot\<close>); the parts are the pieces between slashes, without the
  empty ones and without \<^verbatim>\<open>.\<close> (so \<^verbatim>\<open>./logs\<close>, \<^verbatim>\<open>logs/\<close> and \<^verbatim>\<open>logs\<close> are the
  same path; \<^verbatim>\<open>..\<close> stays).
\<close>

type_synonym path = "string \<times> string list"

text \<open>Python's \<^verbatim>\<open>s.split('/')\<close>.\<close>

fun split_slash :: "string \<Rightarrow> string list" where
  "split_slash [] = [[]]"
| "split_slash (c # cs) =
     (if c = CHR ''/'' then [] # split_slash cs
      else (case split_slash cs of [] \<Rightarrow> [[c]] | l # ls \<Rightarrow> (c # l) # ls))"

definition path_root :: "string \<Rightarrow> string" where
  "path_root s =
     (if take 1 s \<noteq> ''/'' then []
      else if take 1 (drop 1 s) \<noteq> ''/'' \<or> take 1 (drop 2 s) = ''/'' then ''/''
      else ''//'')"

definition path_parts :: "string \<Rightarrow> string list" where
  "path_parts s = filter (\<lambda>x. x \<noteq> [] \<and> x \<noteq> ''.'') (split_slash s)"

text \<open>\<^verbatim>\<open>Path(s)\<close>\<close>

definition Path :: "string \<Rightarrow> path" where
  "Path s = (path_root s, path_parts s)"

text \<open>
  \<^verbatim>\<open>p / key\<close> for a string \<open>key\<close>: a key with a root replaces the path, any other
  key adds its parts.
\<close>

definition truediv :: "path \<Rightarrow> string \<Rightarrow> path" where
  "truediv p key = (if path_root key \<noteq> [] then Path key else (fst p, snd p @ path_parts key))"

text \<open>\<^verbatim>\<open>'/'.join(parts)\<close>\<close>

fun join_slash :: "string list \<Rightarrow> string" where
  "join_slash [] = []"
| "join_slash [x] = x"
| "join_slash (x # y # ys) = x @ ''/'' @ join_slash (y # ys)"

text \<open>
  \<^verbatim>\<open>str(p)\<close>, which is what \<^verbatim>\<open>print_summary\<close> prints for
  \<^verbatim>\<open>box.log_file\<close>: the root and the parts joined by slashes, and \<^verbatim>\<open>.\<close> for the
  path with neither.
\<close>

definition path_str :: "path \<Rightarrow> string" where
  "path_str p = (if fst p = [] \<and> snd p = [] then ''.'' else fst p @ join_slash (snd p))"

text \<open>
  The log file of a box (line 391), as the string of its path, with the time stamp
  string read from the clock at that moment.
\<close>

definition log_path :: "deployer \<Rightarrow> string \<Rightarrow> box \<Rightarrow> string" where
  "log_path d stamp b =
     path_str (truediv (Path (log_dir d)) (''deploy_'' @ name b @ ''_'' @ stamp @ ''.log''))"

text \<open>
  The body of \<^verbatim>\<open>deploy_goad_on_box\<close> between \<^verbatim>\<open>semaphore.acquire()\<close>
  and \<^verbatim>\<open>semaphore.release()\<close>, run to its end.
\<close>

definition deploy_goad_on_box :: "deployer \<Rightarrow> string \<Rightarrow> script \<Rightarrow> box \<Rightarrow> box" where
  "deploy_goad_on_box d stamp job b =
     attempt_loop (max_retries d) job 0 False (b\<lparr>log_file := Some (log_path d stamp b)\<rparr>)"

section \<open>All boxes: the threads of \<^verbatim>\<open>deploy_all\<close>\<close>

text \<open>
  \<^verbatim>\<open>deploy_all\<close> starts one thread per box, each running
  \<^verbatim>\<open>deploy_goad_on_box\<close>, and joins them all. A thread only ever writes its own
  box; what the threads share is \<^verbatim>\<open>self.semaphore = threading.Semaphore(max_threads)\<close>
  and \<^verbatim>\<open>self.lock\<close>. The threads are modelled by interleaving: a thread is a
  program point and its box, and one step of a thread is one block of the source
  that other threads cannot observe partway (\<^verbatim>\<open>box.attempts = attempt\<close>, the one
  assignment to a box outside the lock, is taken together with the locked block that
  follows it).

  Program points: before \<^verbatim>\<open>self.semaphore.acquire()\<close>; at the head of the
  \<^verbatim>\<open>while\<close> loop with the locals \<open>attempt\<close> and \<open>success\<close>; inside attempt
  \<open>n\<close>, the remote job running; in \<^verbatim>\<open>time.sleep(10)\<close> after attempt \<open>n\<close>;
  before \<^verbatim>\<open>self.semaphore.release()\<close> in the \<^verbatim>\<open>finally\<close> clause; returned.
\<close>

datatype pc = Acquire | LoopHead int bool | Running int | Sleeping int | Release | Finished

type_synonym thread = "pc \<times> box"

text \<open>What the environment feeds one thread: the time stamp of line 390 and the attempts.\<close>

record feed =
  stamp :: string
  ssh :: script

text \<open>
  The next block of a thread. Leaving \<open>Acquire\<close> and \<open>Release\<close> also changes the
  semaphore; that part is in \<open>step\<close> below.
\<close>

fun thread_step :: "deployer \<Rightarrow> feed \<Rightarrow> thread \<Rightarrow> thread" where
  "thread_step d f (Acquire, b) = (LoopHead 0 False, b\<lparr>log_file := Some (log_path d (stamp f) b)\<rparr>)"
| "thread_step d f (LoopHead n s, b) =
     (if n < max_retries d \<and> \<not> s
      then (Running (n + 1), begin_attempt (ssh f (n + 1)) (n + 1) b)
      else (Release, b))"
| "thread_step d f (Running n, b) =
     (case conclude_attempt (max_retries d) (ssh f n) n b of
        (b', Success) \<Rightarrow> (LoopHead n True, b')
      | (b', Sleep) \<Rightarrow> (Sleeping n, b')
      | (b', NoSleep) \<Rightarrow> (LoopHead n False, b')
      | (b', Exception) \<Rightarrow> (Release, b'))"
| "thread_step d f (Sleeping n, b) = (LoopHead n False, b)"
| "thread_step d f (Release, b) = (Finished, b)"
| "thread_step d f (Finished, b) = (Finished, b)"

text \<open>
  The shared state: the semaphore's counter and the threads, in the order of
  \<^verbatim>\<open>self.deployment_boxes\<close>.
\<close>

record pool =
  semaphore :: nat
  threads :: "thread list"

text \<open>
  \<^verbatim>\<open>self.lock\<close>. Every block that assigns a status runs under the lock, so it is
  one step here. The lock is held across steps only in the sleep of a retry:
  \<^verbatim>\<open>time.sleep(10)\<close> stands inside \<^verbatim>\<open>with self.lock:\<close> (lines 447 to 466 and
  477 to 488).
\<close>

definition lock_held :: "pool \<Rightarrow> bool" where
  "lock_held p = list_ex (\<lambda>t. case fst t of Sleeping n \<Rightarrow> True | _ \<Rightarrow> False) (threads p)"

text \<open>
  Thread \<open>i\<close> takes its next step. \<^verbatim>\<open>acquire()\<close> blocks while the counter is 0
  (no step: \<open>None\<close>) and decrements it otherwise; \<^verbatim>\<open>release()\<close> increments it;
  a thread that has returned takes no step. Entering an attempt and concluding one
  need the lock, and wait while another thread sleeps with it.
\<close>

definition step :: "deployer \<Rightarrow> (nat \<Rightarrow> feed) \<Rightarrow> nat \<Rightarrow> pool \<Rightarrow> pool option" where
  "step d w i p =
     (if i < length (threads p) then
        (case fst (threads p ! i) of
           Acquire \<Rightarrow>
             (if semaphore p = 0 then None
              else Some \<lparr>semaphore = semaphore p - 1,
                         threads = (threads p)[i := thread_step d (w i) (threads p ! i)]\<rparr>)
         | LoopHead n s \<Rightarrow>
             (if n < max_retries d \<and> \<not> s \<and> lock_held p then None
              else Some \<lparr>semaphore = semaphore p,
                         threads = (threads p)[i := thread_step d (w i) (threads p ! i)]\<rparr>)
         | Running n \<Rightarrow>
             (if lock_held p then None
              else Some \<lparr>semaphore = semaphore p,
                         threads = (threads p)[i := thread_step d (w i) (threads p ! i)]\<rparr>)
         | Sleeping n \<Rightarrow>
             Some \<lparr>semaphore = semaphore p,
                   threads = (threads p)[i := thread_step d (w i) (threads p ! i)]\<rparr>
         | Release \<Rightarrow>
             Some \<lparr>semaphore = semaphore p + 1,
                   threads = (threads p)[i := thread_step d (w i) (threads p ! i)]\<rparr>
         | Finished \<Rightarrow> None)
      else None)"

text \<open>A run under a schedule: the list of the threads that step, in order.\<close>

fun run :: "deployer \<Rightarrow> (nat \<Rightarrow> feed) \<Rightarrow> nat list \<Rightarrow> pool \<Rightarrow> pool option" where
  "run d w [] p = Some p"
| "run d w (i # sched) p = (case step d w i p of None \<Rightarrow> None | Some p' \<Rightarrow> run d w sched p')"

text \<open>
  The state when the threads are created: \<^verbatim>\<open>threading.Semaphore(max_threads)\<close>
  and every thread before its \<^verbatim>\<open>acquire()\<close>. (The constructor raises
  \<^verbatim>\<open>ValueError\<close> for a negative value, see \<open>main\<close>.)
\<close>

definition fan_out :: "deployer \<Rightarrow> box list \<Rightarrow> pool" where
  "fan_out d boxes = \<lparr>semaphore = nat (max_threads d), threads = map (Pair Acquire) boxes\<rparr>"

text \<open>A thread holds a slot from its \<^verbatim>\<open>acquire()\<close> to its \<^verbatim>\<open>release()\<close>.\<close>

fun holds_slot :: "thread \<Rightarrow> bool" where
  "holds_slot (Acquire, b) = False"
| "holds_slot (Finished, b) = False"
| "holds_slot (_, b) = True"

text \<open>The join barrier is passed when every thread has returned.\<close>

definition joined :: "pool \<Rightarrow> bool" where
  "joined p = list_all (\<lambda>t. fst t = Finished) (threads p)"

definition boxes_of :: "pool \<Rightarrow> box list" where
  "boxes_of p = map snd (threads p)"

text \<open>
  The box a thread will leave behind once it has run to its end, from where it
  stands: used to relate the interleaved threads to \<open>deploy_goad_on_box\<close>.
\<close>

fun complete :: "deployer \<Rightarrow> feed \<Rightarrow> thread \<Rightarrow> box" where
  "complete d f (Acquire, b) = deploy_goad_on_box d (stamp f) (ssh f) b"
| "complete d f (LoopHead n s, b) = attempt_loop (max_retries d) (ssh f) n s b"
| "complete d f (Running n, b) =
     (case conclude_attempt (max_retries d) (ssh f n) n b of
        (b', Exception) \<Rightarrow> b'
      | (b', c) \<Rightarrow> attempt_loop (max_retries d) (ssh f) n (c = Success) b')"
| "complete d f (Sleeping n, b) = attempt_loop (max_retries d) (ssh f) n False b"
| "complete d f (Release, b) = b"
| "complete d f (Finished, b) = b"

text \<open>
  A bound on the steps a thread still takes, for the retry bound \<open>R\<close>: at most
  three per remaining attempt (enter, conclude, sleep), then the loop exit and the
  release. The work of a pool is the sum over its threads.
\<close>

fun steps_left :: "int \<Rightarrow> thread \<Rightarrow> nat" where
  "steps_left R (Acquire, b) = 3 * nat R + 3"
| "steps_left R (LoopHead n s, b) = 3 * nat (R - n) + 2"
| "steps_left R (Running n, b) = 3 * nat (R - n) + 4"
| "steps_left R (Sleeping n, b) = 3 * nat (R - n) + 3"
| "steps_left R (Release, b) = 1"
| "steps_left R (Finished, b) = 0"

definition work :: "deployer \<Rightarrow> pool \<Rightarrow> nat" where
  "work d p = sum_list (map (steps_left (max_retries d)) (threads p))"

text \<open>The terminal states of the specification's state machine.\<close>

definition terminal :: "string \<Rightarrow> bool" where
  "terminal st = (st = ''success'' \<or> st = ''failed'' \<or> st = ''timeout'' \<or> st = ''error'')"

text \<open>
  The boxes after the join, computed box by box: what \<open>deploy_all\<close> below hands to
  \<open>print_summary\<close>. Lemma \<open>joined_is_sequential\<close> shows that every interleaving that
  passes the join barrier ends in exactly these boxes.
\<close>

definition joined_boxes :: "deployer \<Rightarrow> (nat \<Rightarrow> feed) \<Rightarrow> box list \<Rightarrow> box list" where
  "joined_boxes d w boxes =
     map (\<lambda>i. deploy_goad_on_box d (stamp (w i)) (ssh (w i)) (boxes ! i)) [0..<length boxes]"

section \<open>The summary: \<^verbatim>\<open>print_summary\<close>\<close>

text \<open>\<^verbatim>\<open>sum(1 for box in self.deployment_boxes if box.status == st)\<close>\<close>

definition count_status :: "string \<Rightarrow> box list \<Rightarrow> nat" where
  "count_status st boxes = length (filter (\<lambda>b. status b = st) boxes)"

text \<open>
  Line 589: \<^verbatim>\<open>(box.end_time - box.start_time).total_seconds() if box.start_time and box.end_time else 0\<close>.
\<close>

definition duration :: "box \<Rightarrow> int" where
  "duration b =
     (case start_time b of
        None \<Rightarrow> 0
      | Some t0 \<Rightarrow> (case end_time b of None \<Rightarrow> 0 | Some t1 \<Rightarrow> t1 - t0))"

text \<open>
  What lines 590 to 594 print for one box, as data instead of formatted text: the
  first line always; the \<^verbatim>\<open>Error preview\<close> line only \<^verbatim>\<open>if box.error_output\<close>
  (a non-empty list), showing \<^verbatim>\<open>box.error_output[0][:100]\<close>; the
  \<^verbatim>\<open>Log file\<close> line only \<^verbatim>\<open>if box.log_file\<close>.
\<close>

record failure_line =
  shown_network_id :: int
  shown_name :: string
  shown_host :: string
  shown_status :: string
  shown_duration :: int
  shown_attempts :: int
  error_preview :: "pystr option"
  shown_log_file :: "string option"

definition failure_report :: "box \<Rightarrow> failure_line" where
  "failure_report b =
     \<lparr>shown_network_id = network_id b, shown_name = name b, shown_host = host b,
      shown_status = status b, shown_duration = duration b, shown_attempts = attempts b,
      error_preview = (case error_output b of [] \<Rightarrow> None | l # ls \<Rightarrow> Some (take 100 l)),
      shown_log_file = log_file b\<rparr>"

record summary =
  total_instances :: nat
  success_count :: nat
  failed_count :: nat
  timeout_count :: nat
  error_count :: nat
  total_attempts :: int
  retried_count :: nat
  failures :: "failure_line list"

text \<open>
  \<^verbatim>\<open>print_summary\<close> over \<^verbatim>\<open>self.deployment_boxes\<close> (the total duration of the
  run, which it only prints, is left out).
\<close>

definition print_summary :: "box list \<Rightarrow> summary" where
  "print_summary boxes =
     (let success_count = count_status ''success'' boxes;
          failed_count = count_status ''failed'' boxes;
          timeout_count = count_status ''timeout'' boxes;
          error_count = count_status ''error'' boxes
      in \<lparr>total_instances = length boxes,
          success_count = success_count,
          failed_count = failed_count,
          timeout_count = timeout_count,
          error_count = error_count,
          total_attempts = sum_list (map attempts boxes),
          retried_count = length (filter (\<lambda>b. attempts b > 1) boxes),
          failures =
            (if failed_count > 0 \<or> timeout_count > 0 \<or> error_count > 0
             then map failure_report
                    (filter (\<lambda>b. status b \<in> set [''failed'', ''timeout'', ''error'']) boxes)
             else [])\<rparr>)"

section \<open>The run: \<^verbatim>\<open>deploy_all\<close> and \<^verbatim>\<open>main\<close>\<close>

text \<open>
  A call returns, or raises \<^verbatim>\<open>SystemExit\<close> through \<^verbatim>\<open>sys.exit(code)\<close>, which
  no handler of the script catches (\<^verbatim>\<open>except Exception\<close> does not).
\<close>

datatype 'a py = Returns 'a | SysExit int

text \<open>
  What reading the inventory file gives: \<^verbatim>\<open>FileNotFoundError\<close>, another
  exception, or the rows \<^verbatim>\<open>(name, host, network_id)\<close> matched under
  \<^verbatim>\<open>[deployment_boxes]\<close>. The matching of the lines themselves is not modelled.
\<close>

datatype inventory_read =
  InventoryNotFound | InventoryError | Inventory "(string \<times> string \<times> int) list"

definition new_boxes :: "(string \<times> string \<times> int) list \<Rightarrow> box list" where
  "new_boxes rows = map (\<lambda>(nm, h, nid). DeploymentBox nm h nid) rows"

definition parse_inventory :: "inventory_read \<Rightarrow> box list py" where
  "parse_inventory r =
     (case r of
        Inventory rows \<Rightarrow> Returns (new_boxes rows)
      | InventoryNotFound \<Rightarrow> SysExit 1
      | InventoryError \<Rightarrow> SysExit 1)"

text \<open>
  What \<^verbatim>\<open>subprocess.run\<close> of a playbook does: it returns with a return code, or
  raises \<^verbatim>\<open>TimeoutExpired\<close>, \<^verbatim>\<open>FileNotFoundError\<close> or another exception.
  The last two also stand for an exception of opening the stage's log file, which
  happens inside the same \<^verbatim>\<open>try\<close>.
\<close>

datatype stage_outcome = StageExit int | StageTimeout | StageNotFound | StageError

text \<open>The two stages whose every branch ends in \<^verbatim>\<open>return True\<close>.\<close>

definition activate_windows_hosts :: "stage_outcome \<Rightarrow> bool py" where
  "activate_windows_hosts r =
     (case r of
        StageExit rc \<Rightarrow> (if rc = 0 then Returns True else Returns True)
      | StageTimeout \<Rightarrow> Returns True
      | StageNotFound \<Rightarrow> Returns True
      | StageError \<Rightarrow> Returns True)"

definition prepare_kali_boxes :: "stage_outcome \<Rightarrow> bool py" where
  "prepare_kali_boxes r =
     (case r of
        StageExit rc \<Rightarrow> (if rc = 0 then Returns True else Returns True)
      | StageTimeout \<Rightarrow> Returns True
      | StageNotFound \<Rightarrow> Returns True
      | StageError \<Rightarrow> Returns True)"

text \<open>The stage whose every branch but return code 0 ends in \<^verbatim>\<open>sys.exit(1)\<close>.\<close>

definition prepare_deployment_boxes :: "stage_outcome \<Rightarrow> bool py" where
  "prepare_deployment_boxes r =
     (case r of
        StageExit rc \<Rightarrow> (if rc = 0 then Returns True else SysExit 1)
      | StageTimeout \<Rightarrow> SysExit 1
      | StageNotFound \<Rightarrow> SysExit 1
      | StageError \<Rightarrow> SysExit 1)"

text \<open>
  What the file system does to lines 61 and 64 of \<^verbatim>\<open>GOADDeployer.__init__\<close>:
  \<^verbatim>\<open>self.log_dir.mkdir(parents=True, exist_ok=True)\<close> raises \<^verbatim>\<open>OSError\<close> when
  the directory cannot be created (a parent that is a file, no permission), and
  \<^verbatim>\<open>logging.FileHandler(log_file)\<close> in \<^verbatim>\<open>setup_logging\<close> when the log file
  cannot be opened.
\<close>

datatype setup_outcome = SetupDone | MkdirRaises | LogFileRaises

text \<open>
  Everything outside the process that a run reads. \<open>thread_limit\<close> is the number of
  threads the system lets the process start, when there is a limit:
  \<^verbatim>\<open>Thread.start()\<close> raises \<^verbatim>\<open>RuntimeError\<close> beyond it.
\<close>

record world =
  log_setup :: setup_outcome
  inventory :: inventory_read
  activation :: stage_outcome
  kali :: stage_outcome
  preparation :: stage_outcome
  thread_limit :: "nat option"
  feeds :: "nat \<Rightarrow> feed"

text \<open>
  What a run leaves behind: the exit code of the process (\<open>None\<close> when it never
  exits), the number of threads started, \<^verbatim>\<open>self.deployment_boxes\<close>, and the
  summary when one was printed.
\<close>

record report =
  exit_code :: "int option"
  threads_started :: nat
  boxes_after :: "box list"
  printed :: "summary option"

text \<open>The number of threads that the loop of lines 544 to 548 starts, of \<open>n\<close> boxes.\<close>

definition startable :: "world \<Rightarrow> nat \<Rightarrow> nat" where
  "startable w n = (case thread_limit w of None \<Rightarrow> n | Some k \<Rightarrow> min k n)"

text \<open>
  \<^verbatim>\<open>deploy_all\<close>, followed by the return of \<^verbatim>\<open>main\<close> (exit code 0) when it
  returns. After the three stages every box gets its thread.

  When \<^verbatim>\<open>thread.start()\<close> raises for one of the boxes, nothing catches the
  exception: the main thread ends with a traceback and no summary, the threads
  started before run on, and the interpreter waits for them and exits with code 1.

  With a semaphore of 0 permits every started thread blocks in \<^verbatim>\<open>acquire()\<close>,
  and neither the joins nor the interpreter's wait ever return (lemma
  \<open>no_permit_no_progress\<close>). Otherwise some thread can always step until all have
  returned (lemma \<open>deadlock_free\<close>), no schedule is longer than the work of the
  first pool (lemma \<open>run_length_bound\<close>), and the threads leave the boxes of
  \<open>joined_boxes\<close> (lemma \<open>joined_is_sequential\<close>).
\<close>

definition deploy_all :: "deployer \<Rightarrow> world \<Rightarrow> report" where
  "deploy_all d w =
     (case parse_inventory (inventory w) of
        SysExit c \<Rightarrow>
          \<lparr>exit_code = Some c, threads_started = 0, boxes_after = [], printed = None\<rparr>
      | Returns boxes \<Rightarrow>
          if boxes = [] then
            \<lparr>exit_code = Some 0, threads_started = 0, boxes_after = [], printed = None\<rparr>
          else
            (case activate_windows_hosts (activation w) of
               SysExit c \<Rightarrow>
                 \<lparr>exit_code = Some c, threads_started = 0, boxes_after = boxes, printed = None\<rparr>
             | Returns _ \<Rightarrow>
            (case prepare_kali_boxes (kali w) of
               SysExit c \<Rightarrow>
                 \<lparr>exit_code = Some c, threads_started = 0, boxes_after = boxes, printed = None\<rparr>
             | Returns _ \<Rightarrow>
            (case prepare_deployment_boxes (preparation w) of
               SysExit c \<Rightarrow>
                 \<lparr>exit_code = Some c, threads_started = 0, boxes_after = boxes, printed = None\<rparr>
             | Returns _ \<Rightarrow>
                 (let k = startable w (length boxes) in
                  if k < length boxes then
                    (if max_threads d = 0 \<and> 0 < k then
                       \<lparr>exit_code = None, threads_started = k, boxes_after = boxes,
                        printed = None\<rparr>
                     else
                       \<lparr>exit_code = Some 1, threads_started = k,
                        boxes_after = joined_boxes d (feeds w) (take k boxes) @ drop k boxes,
                        printed = None\<rparr>)
                  else if max_threads d = 0 then
                    \<lparr>exit_code = None, threads_started = length boxes, boxes_after = boxes,
                     printed = None\<rparr>
                  else
                    \<lparr>exit_code = Some 0, threads_started = length boxes,
                     boxes_after = joined_boxes d (feeds w) boxes,
                     printed = Some (print_summary (joined_boxes d (feeds w) boxes))\<rparr>)))))"

text \<open>
  \<^verbatim>\<open>GOADDeployer.__init__\<close>, in the order of its lines:
  \<^verbatim>\<open>threading.Semaphore(max_threads)\<close> (line 58) raises \<^verbatim>\<open>ValueError\<close> for a
  negative value, then \<^verbatim>\<open>mkdir\<close> (line 61) and \<^verbatim>\<open>setup_logging\<close> (line 64)
  raise \<^verbatim>\<open>OSError\<close> as the file system has it.
\<close>

datatype construction = Deployer | ValueError | OSError

definition GOADDeployer_init :: "deployer \<Rightarrow> setup_outcome \<Rightarrow> construction" where
  "GOADDeployer_init d s =
     (if max_threads d < 0 then ValueError
      else (case s of SetupDone \<Rightarrow> Deployer | MkdirRaises \<Rightarrow> OSError | LogFileRaises \<Rightarrow> OSError))"

text \<open>
  \<^verbatim>\<open>main\<close> after \<^verbatim>\<open>parse_args\<close> has accepted the command line: the
  constructor of the deployer, then \<^verbatim>\<open>deploy_all\<close>. \<^verbatim>\<open>main\<close> catches
  nothing, so an exception of the constructor ends the process with a traceback and
  exit code 1, before anything else has run. Writing to the console and to the
  logger is taken to succeed, and the working directory to stay in place.
\<close>

definition main :: "deployer \<Rightarrow> world \<Rightarrow> report" where
  "main d w =
     (case GOADDeployer_init d (log_setup w) of
        Deployer \<Rightarrow> deploy_all d w
      | ValueError \<Rightarrow>
          \<lparr>exit_code = Some 1, threads_started = 0, boxes_after = [], printed = None\<rparr>
      | OSError \<Rightarrow>
          \<lparr>exit_code = Some 1, threads_started = 0, boxes_after = [], printed = None\<rparr>)"

section \<open>What holds of a thread wherever it stands\<close>


text \<open>Facts about a box that hold at every program point.\<close>

definition box_inv :: "box \<Rightarrow> bool" where
  "box_inv b =
     (status b \<in> set [''pending'', ''running'', ''success'', ''failed'', ''timeout'', ''error''] \<and>
      0 \<le> attempts b \<and>
      (status b = ''pending'') = (attempts b = 0) \<and>
      (status b = ''pending'' \<or> start_time b \<noteq> None) \<and>
      (\<not> terminal (status b) \<or> end_time b \<noteq> None) \<and>
      (status b \<noteq> ''failed'' \<or> error_output b \<noteq> []))"

text \<open>What the program point of a thread says about its box, for the retry bound \<open>R\<close>.\<close>

fun thread_inv :: "int \<Rightarrow> thread \<Rightarrow> bool" where
  "thread_inv R (Acquire, b) =
     (box_inv b \<and> status b = ''pending'' \<and> log_file b = None \<and> start_time b = None \<and>
      end_time b = None \<and> error_output b = [])"
| "thread_inv R (LoopHead n s, b) =
     (box_inv b \<and> log_file b \<noteq> None \<and> attempts b = n \<and>
      (if s then status b = ''success''
       else if n < R then status b = ''pending'' \<or> status b = ''running''
       else status b = ''pending'' \<or> status b = ''failed'' \<or> status b = ''timeout''))"
| "thread_inv R (Running n, b) =
     (box_inv b \<and> log_file b \<noteq> None \<and> attempts b = n \<and> status b = ''running'')"
| "thread_inv R (Sleeping n, b) =
     (box_inv b \<and> log_file b \<noteq> None \<and> attempts b = n \<and> n < R \<and> status b = ''running'')"
| "thread_inv R (Release, b) =
     (box_inv b \<and> log_file b \<noteq> None \<and> (terminal (status b) \<or> status b = ''pending'' \<and> R \<le> 0))"
| "thread_inv R (Finished, b) =
     (box_inv b \<and> log_file b \<noteq> None \<and> (terminal (status b) \<or> status b = ''pending'' \<and> R \<le> 0))"

section \<open>Concrete runs\<close>

text \<open>Scripts, boxes and worlds on which the theorems below are evaluated.\<close>

definition demo_deployer :: "int \<Rightarrow> int \<Rightarrow> deployer" where
  "demo_deployer K R = \<lparr>max_threads = K, max_retries = R, log_dir = ''./logs''\<rparr>"

definition fails_always :: script where
  "fails_always n =
     \<lparr>started_at = 100 * n, outcome = Completed 1 [] [98, 111, 111, 109], finished_at = 100 * n + 60\<rparr>"

definition times_out_always :: script where
  "times_out_always n =
     \<lparr>started_at = 10000 * n, outcome = TimeoutExpired, finished_at = 10000 * n + 7200\<rparr>"

definition raises_always :: script where
  "raises_always n = \<lparr>started_at = 100 * n, outcome = Raised, finished_at = 100 * n + 1\<rparr>"

definition succeeds_always :: script where
  "succeeds_always n =
     \<lparr>started_at = 100 * n, outcome = Completed 0 [111, 107] [], finished_at = 100 * n + 60\<rparr>"

definition demo_feeds :: "script \<Rightarrow> nat \<Rightarrow> feed" where
  "demo_feeds job i = \<lparr>stamp = ''20250101_120000'', ssh = job\<rparr>"

definition demo_rows :: "(string \<times> string \<times> int) list" where
  "demo_rows = [(''goad-deploy-1'', ''10.0.1.10'', 1), (''goad-deploy-2'', ''10.0.2.10'', 2)]"

definition demo_boxes :: "box list" where
  "demo_boxes = new_boxes demo_rows"

definition demo_world :: "inventory_read \<Rightarrow> stage_outcome \<Rightarrow> script \<Rightarrow> world" where
  "demo_world rows prep job =
     \<lparr>log_setup = SetupDone, inventory = rows, activation = StageExit 0, kali = StageExit 0,
      preparation = prep, thread_limit = None, feeds = demo_feeds job\<rparr>"

text \<open>The pool a schedule leads to, read thread by thread.\<close>

definition demo_run :: "int \<Rightarrow> int \<Rightarrow> script \<Rightarrow> nat list \<Rightarrow> pool option" where
  "demo_run K R job sched =
     run (demo_deployer K R) (demo_feeds job) sched (fan_out (demo_deployer K R) demo_boxes)"

definition pcs :: "pool option \<Rightarrow> pc list" where
  "pcs r = (case r of None \<Rightarrow> [] | Some p \<Rightarrow> map fst (threads p))"

definition seen :: "(box \<Rightarrow> 'a) \<Rightarrow> pool option \<Rightarrow> 'a list" where
  "seen field r = (case r of None \<Rightarrow> [] | Some p \<Rightarrow> map field (boxes_of p))"

text \<open>The four counts and the failure lines of the summary over the boxes of a pool.\<close>

definition tally :: "pool option \<Rightarrow> nat list" where
  "tally r =
     (case r of
        None \<Rightarrow> []
      | Some p \<Rightarrow>
          [success_count (print_summary (boxes_of p)), failed_count (print_summary (boxes_of p)),
           timeout_count (print_summary (boxes_of p)), error_count (print_summary (boxes_of p))])"

definition report_lines :: "pool option \<Rightarrow> failure_line list" where
  "report_lines r = (case r of None \<Rightarrow> [] | Some p \<Rightarrow> failures (print_summary (boxes_of p)))"

section \<open>Lemmas about one attempt and about the loop\<close>

text \<open>The loop equation is unfolded by hand, one iteration at a time.\<close>

declare attempt_loop.simps [simp del]

lemma conclude_cases:
  "conclude_attempt R a n b = (b', c) \<Longrightarrow>
     (c = Success \<longrightarrow> status b' = ''success'') \<and>
     (c = Sleep \<longrightarrow> n < R \<and> status b' = status b) \<and>
     (c = NoSleep \<longrightarrow> \<not> n < R \<and> (status b' = ''failed'' \<or> status b' = ''timeout'')) \<and>
     (c = Exception \<longrightarrow> status b' = ''error'')"
  by (auto simp: conclude_attempt_def Let_def split: outcome.splits if_splits)

lemma complete_thread_step: "complete d f (thread_step d f t) = complete d f t"
proof (cases t)
  case (Pair p b)
  show ?thesis
  proof (cases p)
    case Acquire
    with Pair show ?thesis by (simp add: deploy_goad_on_box_def)
  next
    case (LoopHead n s)
    with Pair show ?thesis
      by (simp add: attempt_loop.simps [of _ _ n s b])
  next
    case (Running n)
    obtain b' c where bc: "conclude_attempt (max_retries d) (ssh f n) n b = (b', c)"
      by (cases "conclude_attempt (max_retries d) (ssh f n) n b")
    from conclude_cases [OF bc] have "c = NoSleep \<Longrightarrow> \<not> n < max_retries d" by simp
    with Pair Running bc show ?thesis
      by (cases c) (simp_all add: attempt_loop.simps [of _ _ n True b'] attempt_loop.simps [of "max_retries d" _ n False b'])
  next
    case (Sleeping n)
    with Pair show ?thesis by simp
  next
    case Release
    with Pair show ?thesis by simp
  next
    case Finished
    with Pair show ?thesis by simp
  qed
qed

lemma filter_update_count:
  "i < length xs \<Longrightarrow>
   length (filter P (xs[i := y])) + (if P (xs ! i) then 1 else 0) =
   length (filter P xs) + (if P y then 1 else 0)"
proof (induction xs arbitrary: i)
  case Nil
  then show ?case by simp
next
  case (Cons x xs)
  then show ?case by (cases i) auto
qed

lemma step_shape:
  "step d w i p = Some p' \<Longrightarrow>
     i < length (threads p) \<and> threads p' = (threads p)[i := thread_step d (w i) (threads p ! i)]"
  by (auto simp: step_def split: if_splits pc.splits)

lemma run_preserves:
  assumes inv: "\<And>i t. I i t \<Longrightarrow> I i (thread_step d (w i) t)"
  shows "run d w sched p = Some p' \<Longrightarrow> (\<forall>i < length (threads p). I i (threads p ! i)) \<Longrightarrow>
         length (threads p') = length (threads p) \<and> (\<forall>i < length (threads p'). I i (threads p' ! i))"
proof (induction sched arbitrary: p)
  case Nil
  then show ?case by simp
next
  case (Cons i sched)
  from Cons.prems(1) obtain q where q: "step d w i p = Some q" and r: "run d w sched q = Some p'"
    by (auto split: option.splits)
  from step_shape [OF q] have i: "i < length (threads p)"
    and tq: "threads q = (threads p)[i := thread_step d (w i) (threads p ! i)]" by simp_all
  have "\<forall>j < length (threads q). I j (threads q ! j)"
  proof (intro allI impI)
    fix j assume "j < length (threads q)"
    with tq have j: "j < length (threads p)" by simp
    show "I j (threads q ! j)"
    proof (cases "j = i")
      case True
      with tq i Cons.prems(2) inv show ?thesis by simp
    next
      case False
      with tq j Cons.prems(2) show ?thesis by simp
    qed
  qed
  from Cons.IH [OF r this] tq show ?case by simp
qed

lemma holds_slot_step:
  "holds_slot (thread_step d f t) = (fst t \<noteq> Release \<and> fst t \<noteq> Finished)"
  by (cases "(d, f, t)" rule: thread_step.cases) (auto split: prod.splits ctl.splits)

lemma step_semaphore:
  assumes "step d w i p = Some p'"
  shows "length (filter holds_slot (threads p')) + semaphore p' =
         length (filter holds_slot (threads p)) + semaphore p"
proof -
  obtain c b where t: "threads p ! i = (c, b)" by (cases "threads p ! i")
  define t' where "t' = thread_step d (w i) (threads p ! i)"
  from step_shape [OF assms] have i: "i < length (threads p)"
    and tp: "threads p' = (threads p)[i := t']" by (simp_all add: t'_def)
  have h': "holds_slot t' = (c \<noteq> Release \<and> c \<noteq> Finished)"
    unfolding t'_def holds_slot_step using t by simp
  have h: "holds_slot (threads p ! i) = (c \<noteq> Acquire \<and> c \<noteq> Finished)"
    using t by (cases c) simp_all
  note cnt = filter_update_count [OF i, of holds_slot t']
  have sem: "(c = Acquire \<longrightarrow> semaphore p \<noteq> 0 \<and> semaphore p' = semaphore p - 1) \<and>
             (c = Release \<longrightarrow> semaphore p' = semaphore p + 1) \<and>
             (c \<noteq> Acquire \<and> c \<noteq> Release \<longrightarrow> semaphore p' = semaphore p) \<and> c \<noteq> Finished"
    using assms t i by (cases c) (auto simp: step_def split: if_splits)
  from cnt sem show ?thesis unfolding tp h h' by (cases c) auto
qed

lemma run_semaphore:
  "run d w sched p = Some p' \<Longrightarrow>
     length (filter holds_slot (threads p')) + semaphore p' =
     length (filter holds_slot (threads p)) + semaphore p"
proof (induction sched arbitrary: p)
  case Nil
  then show ?case by simp
next
  case (Cons i sched)
  then obtain q where q: "step d w i p = Some q" and r: "run d w sched q = Some p'"
    by (auto split: option.splits)
  from Cons.IH [OF r] step_semaphore [OF q] show ?case by simp
qed

lemma fan_out_no_holders: "filter holds_slot (threads (fan_out d boxes)) = []"
  by (induction boxes) (simp_all add: fan_out_def)

lemma begin_attempt_fields [simp]:
  "attempts (begin_attempt a n b) = n"
  "status (begin_attempt a n b) = ''running''"
  "start_time (begin_attempt a n b) \<noteq> None"
  "end_time (begin_attempt a n b) = end_time b"
  "error_output (begin_attempt a n b) = error_output b"
  "log_file (begin_attempt a n b) = log_file b"
  "name (begin_attempt a n b) = name b"
  "host (begin_attempt a n b) = host b"
  "network_id (begin_attempt a n b) = network_id b"
  by (simp_all add: begin_attempt_def split: option.splits)

lemma conclude_keeps:
  "conclude_attempt R a n b = (b', c) \<Longrightarrow>
     attempts b' = attempts b \<and> start_time b' = start_time b \<and> log_file b' = log_file b \<and>
     name b' = name b \<and> host b' = host b \<and> network_id b' = network_id b"
  by (auto simp: conclude_attempt_def Let_def split: outcome.splits if_splits)

lemma attempt_loop_exit: "\<not> (n < R \<and> \<not> s) \<Longrightarrow> attempt_loop R job n s b = b"
  by (subst attempt_loop.simps) auto

lemma attempt_loop_iter:
  "n < R \<Longrightarrow> \<not> s \<Longrightarrow>
   conclude_attempt R (job (n + 1)) (n + 1) (begin_attempt (job (n + 1)) (n + 1) b) = (b', c) \<Longrightarrow>
   attempt_loop R job n s b = (if c = Exception then b' else attempt_loop R job (n + 1) (c = Success) b')"
  by (subst attempt_loop.simps) (simp split: ctl.splits)

lemma attempt_loop_terminal:
  "n < R \<Longrightarrow> \<not> s \<Longrightarrow> terminal (status (attempt_loop R job n s b))"
proof (induction R job n s b rule: attempt_loop.induct)
  case (1 R job n s b)
  obtain b' c where bc:
    "conclude_attempt R (job (n + 1)) (n + 1) (begin_attempt (job (n + 1)) (n + 1) b) = (b', c)"
    by (cases "conclude_attempt R (job (n + 1)) (n + 1) (begin_attempt (job (n + 1)) (n + 1) b)")
  note cc = conclude_cases [OF bc]
  have it: "attempt_loop R job n s b =
      (if c = Exception then b' else attempt_loop R job (n + 1) (c = Success) b')"
    using "1.prems" bc by (rule attempt_loop_iter)
  show ?case
  proof (cases c)
    case Exception
    with it cc show ?thesis by (simp add: terminal_def)
  next
    case Success
    with it cc show ?thesis by (simp add: attempt_loop_exit terminal_def)
  next
    case Sleep
    with cc have "n + 1 < R" by simp
    from "1.IH" [OF _ bc [symmetric] _ this] "1.prems" Sleep it show ?thesis by simp
  next
    case NoSleep
    with it cc show ?thesis by (auto simp: attempt_loop_exit terminal_def)
  qed
qed

lemma thread_step_not_Acquire: "fst (thread_step d f t) \<noteq> Acquire"
  by (cases "(d, f, t)" rule: thread_step.cases) (auto split: prod.splits ctl.splits)

lemma run_complete:
  assumes "run d w sched (fan_out d boxes) = Some p"
  shows "length (threads p) = length boxes \<and>
         (\<forall>i < length (threads p).
            complete d (w i) (threads p ! i) =
              deploy_goad_on_box d (stamp (w i)) (ssh (w i)) (boxes ! i) \<and>
            (fst (threads p ! i) = Acquire \<longrightarrow> snd (threads p ! i) = boxes ! i))"
proof -
  let ?I = "\<lambda>i t. complete d (w i) t = deploy_goad_on_box d (stamp (w i)) (ssh (w i)) (boxes ! i) \<and>
                   (fst t = Acquire \<longrightarrow> snd t = boxes ! i)"
  have pres: "\<And>i t. ?I i t \<Longrightarrow> ?I i (thread_step d (w i) t)"
    by (simp add: complete_thread_step thread_step_not_Acquire)
  have init: "\<forall>i < length (threads (fan_out d boxes)). ?I i (threads (fan_out d boxes) ! i)"
    by (simp add: fan_out_def)
  from run_preserves [of ?I d w sched "fan_out d boxes" p, OF pres assms init]
  show ?thesis by (simp add: fan_out_def)
qed

lemmas path_defs = log_path_def path_str_def truediv_def Path_def path_root_def path_parts_def

text \<open>
  The log file of a box for the default \<^verbatim>\<open>./logs\<close>, for the empty string, and
  for an absolute directory written with a doubled and a trailing slash.
\<close>

lemma log_path_examples:
  "log_path \<lparr>max_threads = 10, max_retries = 3, log_dir = ''./logs''\<rparr> ''S''
     (DeploymentBox ''b'' ''h'' 1) = ''logs/deploy_b_S.log''"
  "log_path \<lparr>max_threads = 10, max_retries = 3, log_dir = []\<rparr> ''S''
     (DeploymentBox ''b'' ''h'' 1) = ''deploy_b_S.log''"
  "log_path \<lparr>max_threads = 10, max_retries = 3, log_dir = ''/var/log//goad/''\<rparr> ''S''
     (DeploymentBox ''b'' ''h'' 1) = ''/var/log/goad/deploy_b_S.log''"
  by (simp_all add: path_defs DeploymentBox_def)

lemmas demo_defs = demo_run_def demo_deployer_def demo_feeds_def demo_boxes_def demo_rows_def
     new_boxes_def fan_out_def step_def lock_held_def DeploymentBox_def fails_always_def begin_attempt_def conclude_attempt_def pcs_def seen_def boxes_of_def

section \<open>The admission slots\<close>

text \<open>
  Claim C1. In every state that a run of \<open>N\<close> threads with concurrency limit
  \<open>K = max_threads\<close> (not negative, or there is no deployer and no run) can
  reach, under any schedule, at most \<open>K\<close> threads hold an
  admission slot: the threads between their \<^verbatim>\<open>acquire()\<close> and their
  \<^verbatim>\<open>release()\<close> (at the loop head, inside an attempt, or in the sleep between
  two attempts) are exactly the \<open>K - semaphore\<close> permits that are taken. A thread
  that has not acquired its slot has not touched its box; a thread at or after its
  release has the box that the whole attempt sequence of \<open>deploy_goad_on_box\<close>
  leaves, and after the release it takes no further step: the slot is held for the
  entire attempt sequence and given back only when the processing of the target
  has stopped.
\<close>

theorem admission_bound:
  assumes "0 \<le> max_threads d"
    and "run d w sched (fan_out d boxes) = Some p"
  shows "int (length (filter holds_slot (threads p))) \<le> max_threads d \<and>
         length (filter holds_slot (threads p)) + semaphore p = nat (max_threads d) \<and>
         length (threads p) = length boxes \<and>
         (\<forall>i < length boxes.
            (fst (threads p ! i) = Acquire \<longrightarrow> snd (threads p ! i) = boxes ! i) \<and>
            (fst (threads p ! i) = Release \<or> fst (threads p ! i) = Finished \<longrightarrow>
               snd (threads p ! i) = deploy_goad_on_box d (stamp (w i)) (ssh (w i)) (boxes ! i)) \<and>
            (fst (threads p ! i) = Finished \<longrightarrow> step d w i p = None))"
proof -
  from run_semaphore [OF assms(2)]
  have sem: "length (filter holds_slot (threads p)) + semaphore p = nat (max_threads d)"
    by (simp add: fan_out_no_holders) (simp add: fan_out_def)
  with assms(1) have bound: "int (length (filter holds_slot (threads p))) \<le> max_threads d"
    by linarith
  note rc = run_complete [OF assms(2)]
  have "\<forall>i < length boxes.
            (fst (threads p ! i) = Acquire \<longrightarrow> snd (threads p ! i) = boxes ! i) \<and>
            (fst (threads p ! i) = Release \<or> fst (threads p ! i) = Finished \<longrightarrow>
               snd (threads p ! i) = deploy_goad_on_box d (stamp (w i)) (ssh (w i)) (boxes ! i)) \<and>
            (fst (threads p ! i) = Finished \<longrightarrow> step d w i p = None)"
  proof (intro allI impI)
    fix i assume i: "i < length boxes"
    obtain c b where t: "threads p ! i = (c, b)" by (cases "threads p ! i")
    from rc i t have c: "complete d (w i) (c, b) =
        deploy_goad_on_box d (stamp (w i)) (ssh (w i)) (boxes ! i)"
      and a: "c = Acquire \<longrightarrow> b = boxes ! i" by auto
    from c a t i rc show "(fst (threads p ! i) = Acquire \<longrightarrow> snd (threads p ! i) = boxes ! i) \<and>
            (fst (threads p ! i) = Release \<or> fst (threads p ! i) = Finished \<longrightarrow>
               snd (threads p ! i) = deploy_goad_on_box d (stamp (w i)) (ssh (w i)) (boxes ! i)) \<and>
            (fst (threads p ! i) = Finished \<longrightarrow> step d w i p = None)"
      by (auto simp: step_def)
  qed
  with sem bound rc show ?thesis by simp
qed

theorem admission_bound_witness:
  "0 \<le> max_threads (demo_deployer 1 2) \<and>
   pcs (demo_run 1 2 fails_always [0, 0, 0]) = [Sleeping 1, Acquire] \<and>
   demo_run 1 2 fails_always [0, 0, 0, 1] = None \<and>
   (case demo_run 1 2 fails_always [0, 0, 0] of
      Some p \<Rightarrow> length (filter holds_slot (threads p)) = 1 \<and> semaphore p = 0 | None \<Rightarrow> False)"
proof -
  obtain p where p: "demo_run 1 2 fails_always [0, 0, 0] = Some p"
    by (simp add: demo_defs)
  have k: "0 \<le> max_threads (demo_deployer 1 2)" by (simp add: demo_deployer_def)
  from p have r: "run (demo_deployer 1 2) (demo_feeds fails_always) [0, 0, 0]
      (fan_out (demo_deployer 1 2) demo_boxes) = Some p" by (simp add: demo_run_def)
  from admission_bound [OF k r] have "length (filter holds_slot (threads p)) + semaphore p = 1"
    by (simp add: demo_deployer_def)
  moreover have "pcs (demo_run 1 2 fails_always [0, 0, 0]) = [Sleeping 1, Acquire]"
    by (simp add: demo_defs)
  moreover from this p have "length (filter holds_slot (threads p)) = 1"
    by (cases "threads p") (auto simp: pcs_def)
  moreover have "demo_run 1 2 fails_always [0, 0, 0, 1] = None"
    by (simp add: demo_defs)
  ultimately show ?thesis using k p by simp
qed

section \<open>Targets that always fail, always time out, or cannot be invoked\<close>



lemma loop_raises_at_once:
  assumes "n < R" "\<not> s" "outcome (job (n + 1)) = Raised"
  shows "attempts (attempt_loop R job n s b) = n + 1 \<and> status (attempt_loop R job n s b) = ''error''"
proof -
  let ?b1 = "begin_attempt (job (n + 1)) (n + 1) b"
  obtain b' c where bc: "conclude_attempt R (job (n + 1)) (n + 1) ?b1 = (b', c)"
    by (cases "conclude_attempt R (job (n + 1)) (n + 1) ?b1")
  have it: "attempt_loop R job n s b =
      (if c = Exception then b' else attempt_loop R job (n + 1) (c = Success) b')"
    using assms(1,2) bc by (rule attempt_loop_iter)
  from bc assms(3) have "c = Exception" "status b' = ''error''"
    by (auto simp: conclude_attempt_def)
  with it conclude_keeps [OF bc] show ?thesis by simp
qed







text \<open>
  Claim C5. A target whose job invocation raises an exception other than a timeout on
  its first attempt is attempted exactly once (\<^verbatim>\<open>box.attempts\<close> is 1, so there is
  no retry) and ends with the terminal status \<^verbatim>\<open>error\<close>, whatever the configured
  maximum. That there is a first attempt at all means that the maximum is at least 1.
\<close>

theorem environment_error_not_retried:
  assumes "0 < max_retries d"
    and "outcome (job 1) = Raised"
  shows "attempts (deploy_goad_on_box d st job b) = 1 \<and>
         status (deploy_goad_on_box d st job b) = ''error''"
  unfolding deploy_goad_on_box_def
  using loop_raises_at_once [of 0 "max_retries d" False job] assms by simp

theorem environment_error_not_retried_witness:
  "0 < max_retries (demo_deployer 1 5) \<and> outcome (raises_always 1) = Raised \<and>
   attempts (deploy_goad_on_box (demo_deployer 1 5) ''20250101_120000'' raises_always
     (DeploymentBox ''goad-deploy-1'' ''10.0.1.10'' 1)) = 1 \<and>
   status (deploy_goad_on_box (demo_deployer 1 5) ''20250101_120000'' raises_always
     (DeploymentBox ''goad-deploy-1'' ''10.0.1.10'' 1)) = ''error''"
proof -
  have r: "0 < max_retries (demo_deployer 1 5)" by (simp add: demo_deployer_def)
  have f: "outcome (raises_always 1) = Raised" by (simp add: raises_always_def)
  from environment_error_not_retried [of "demo_deployer 1 5" raises_always, OF r f] r f
  show ?thesis by simp
qed

section \<open>The critical stage and the exit code\<close>

lemma best_effort_stages_return [simp]:
  "activate_windows_hosts r = Returns True" "prepare_kali_boxes r = Returns True"
  by (cases r; simp add: activate_windows_hosts_def prepare_kali_boxes_def)+

lemma new_boxes_empty [simp]: "(new_boxes rows = []) = (rows = [])"
  by (simp add: new_boxes_def)

lemma length_new_boxes [simp]: "length (new_boxes rows) = length rows"
  by (simp add: new_boxes_def)

lemma prepare_deployment_boxes_cases:
  "prepare_deployment_boxes r = (if r = StageExit 0 then Returns True else SysExit 1)"
  by (cases r) (simp_all add: prepare_deployment_boxes_def)

lemma GOADDeployer_init_Deployer:
  "(GOADDeployer_init d s = Deployer) = (0 \<le> max_threads d \<and> s = SetupDone)"
  by (cases s) (auto simp: GOADDeployer_init_def)

lemma main_constructed:
  "0 \<le> max_threads d \<Longrightarrow> log_setup w = SetupDone \<Longrightarrow> main d w = deploy_all d w"
  by (simp add: main_def GOADDeployer_init_def)


text \<open>
  A thread that cannot be started, with at least one permit: exit code 1 and no
  summary, although every stage succeeded; the threads started before have run.
\<close>

lemma thread_start_failure:
  assumes "0 < max_threads d" and "log_setup w = SetupDone"
    and "inventory w = Inventory rows" and "preparation w = StageExit 0"
    and "startable w (length rows) < length rows"
  shows "exit_code (main d w) = Some 1 \<and>
         threads_started (main d w) = startable w (length rows) \<and>
         printed (main d w) = None \<and>
         boxes_after (main d w) =
           joined_boxes d (feeds w) (take (startable w (length rows)) (new_boxes rows)) @
           drop (startable w (length rows)) (new_boxes rows)"
proof -
  from assms(5) have "rows \<noteq> []" by auto
  with assms show ?thesis
    by (simp add: main_constructed deploy_all_def parse_inventory_def
          prepare_deployment_boxes_cases Let_def)
qed

text \<open>
  Claim C8. If the critical preparation stage (\<^verbatim>\<open>prepare_deployment_boxes\<close>) is
  reached (the deployer exists: its thread count is not negative and its log
  directory and log file were created; and the inventory lists at least one box)
  and its playbook returns a non-zero exit code, times out, is not found or cannot
  be run for another reason, then no thread is started, every box is as the
  inventory created it, no summary is printed, and the process exits with code 1.
\<close>

theorem critical_stage_failure_aborts:
  assumes "0 \<le> max_threads d"
    and "log_setup w = SetupDone"
    and "inventory w = Inventory rows"
    and "rows \<noteq> []"
    and "preparation w \<noteq> StageExit 0"
  shows "threads_started (main d w) = 0 \<and>
         exit_code (main d w) = Some 1 \<and>
         boxes_after (main d w) = new_boxes rows \<and>
         printed (main d w) = None"
  using assms
  by (simp add: main_constructed deploy_all_def parse_inventory_def
        prepare_deployment_boxes_cases)

theorem critical_stage_failure_aborts_witness:
  "0 \<le> max_threads (demo_deployer 1 3) \<and>
   log_setup (demo_world (Inventory demo_rows) StageTimeout succeeds_always) = SetupDone \<and>
   inventory (demo_world (Inventory demo_rows) StageTimeout succeeds_always) = Inventory demo_rows \<and>
   demo_rows \<noteq> [] \<and>
   preparation (demo_world (Inventory demo_rows) StageTimeout succeeds_always) \<noteq> StageExit 0 \<and>
   threads_started (main (demo_deployer 1 3)
     (demo_world (Inventory demo_rows) StageTimeout succeeds_always)) = 0 \<and>
   exit_code (main (demo_deployer 1 3)
     (demo_world (Inventory demo_rows) StageTimeout succeeds_always)) = Some 1 \<and>
   map status (boxes_after (main (demo_deployer 1 3)
     (demo_world (Inventory demo_rows) StageTimeout succeeds_always))) = [''pending'', ''pending'']"
proof -
  let ?d = "demo_deployer 1 3"
  let ?w = "demo_world (Inventory demo_rows) StageTimeout succeeds_always"
  have k: "0 \<le> max_threads ?d" by (simp add: demo_deployer_def)
  have s: "log_setup ?w = SetupDone" by (simp add: demo_world_def)
  have i: "inventory ?w = Inventory demo_rows" by (simp add: demo_world_def)
  have n: "demo_rows \<noteq> []" by (simp add: demo_rows_def)
  have p: "preparation ?w \<noteq> StageExit 0" by (simp add: demo_world_def)
  from critical_stage_failure_aborts [OF k s i n p] k s i n p show ?thesis
    by (simp add: demo_rows_def new_boxes_def DeploymentBox_def)
qed




section \<open>The statuses of a run\<close>

lemma split_nl_not_Nil [simp]: "split_nl s \<noteq> []"
  by (induction s) (auto split: list.splits)

lemma thread_inv_new: "thread_inv R (Acquire, DeploymentBox nm h nid)"
  by (simp add: box_inv_def DeploymentBox_def terminal_def)

lemma box_inv_begin:
  "box_inv b \<Longrightarrow> 0 \<le> n \<Longrightarrow> status b = ''pending'' \<or> status b = ''running'' \<Longrightarrow>
   box_inv (begin_attempt a (n + 1) b)"
  by (auto simp: box_inv_def begin_attempt_def terminal_def split: option.splits)

lemma box_inv_conclude:
  "box_inv b \<Longrightarrow> status b = ''running'' \<Longrightarrow> conclude_attempt R a n b = (b', c) \<Longrightarrow>
   box_inv b' \<and> log_file b' = log_file b \<and> attempts b' = attempts b"
  by (auto simp: box_inv_def conclude_attempt_def Let_def terminal_def
           split: outcome.splits if_splits)

lemma box_inv_log: "box_inv (b\<lparr>log_file := l\<rparr>) = box_inv b"
  by (simp add: box_inv_def)

lemma thread_inv_step: "thread_inv (max_retries d) t \<Longrightarrow> thread_inv (max_retries d) (thread_step d f t)"
proof (cases t)
  case (Pair p b)
  assume inv: "thread_inv (max_retries d) t"
  show ?thesis
  proof (cases p)
    case Acquire
    with Pair inv show ?thesis by (auto simp: box_inv_def)
  next
    case (LoopHead n s)
    with Pair inv have bi: "box_inv b" and at: "attempts b = n" by simp_all
    then have n0: "0 \<le> n" by (simp add: box_inv_def)
    show ?thesis
    proof (cases "n < max_retries d \<and> \<not> s")
      case True
      with Pair LoopHead inv have "status b = ''pending'' \<or> status b = ''running''" by simp
      from box_inv_begin [OF bi n0 this] Pair LoopHead inv True show ?thesis by simp
    next
      case False
      with Pair LoopHead inv bi show ?thesis
        by (auto simp: terminal_def box_inv_def split: if_splits)
    qed
  next
    case (Running n)
    obtain b' c where bc: "conclude_attempt (max_retries d) (ssh f n) n b = (b', c)"
      by (cases "conclude_attempt (max_retries d) (ssh f n) n b")
    from Pair Running inv have bi: "box_inv b" and st: "status b = ''running''" by simp_all
    note k = box_inv_conclude [OF bi st bc]
    note cc = conclude_cases [OF bc]
    from Pair Running inv bc k cc st show ?thesis
      by (cases c) (auto simp: terminal_def)
  next
    case (Sleeping n)
    with Pair inv show ?thesis by simp
  next
    case Release
    with Pair inv show ?thesis by simp
  next
    case Finished
    with Pair inv show ?thesis by simp
  qed
qed

lemma run_thread_inv:
  assumes "run d w sched (fan_out d (new_boxes rows)) = Some p"
  shows "length (threads p) = length rows \<and>
         (\<forall>i < length (threads p). thread_inv (max_retries d) (threads p ! i))"
proof -
  let ?I = "\<lambda>i::nat. thread_inv (max_retries d)"
  have pres: "\<And>i t. ?I i t \<Longrightarrow> ?I i (thread_step d (w i) t)"
    by (rule thread_inv_step)
  have init: "\<forall>i < length (threads (fan_out d (new_boxes rows))).
      ?I i (threads (fan_out d (new_boxes rows)) ! i)"
    by (simp add: fan_out_def new_boxes_def thread_inv_new split: prod.splits del: thread_inv.simps)
  from run_preserves [of ?I d w sched "fan_out d (new_boxes rows)" p, OF pres assms init]
  show ?thesis by (simp add: fan_out_def new_boxes_def)
qed

lemma joined_nth: "joined p \<Longrightarrow> i < length (threads p) \<Longrightarrow> fst (threads p ! i) = Finished"
  by (simp add: joined_def list_all_length)

lemma boxes_of_nth: "i < length (threads p) \<Longrightarrow> boxes_of p ! i = snd (threads p ! i)"
  by (simp add: boxes_of_def)

lemma count_terminal:
  "\<forall>b \<in> set bs. terminal (status b) \<Longrightarrow>
   count_status ''success'' bs + count_status ''failed'' bs + count_status ''timeout'' bs +
   count_status ''error'' bs = length bs"
  by (induction bs) (auto simp: count_status_def terminal_def)

lemma summary_counts [simp]:
  "success_count (print_summary bs) = count_status ''success'' bs"
  "failed_count (print_summary bs) = count_status ''failed'' bs"
  "timeout_count (print_summary bs) = count_status ''timeout'' bs"
  "error_count (print_summary bs) = count_status ''error'' bs"
  "total_instances (print_summary bs) = length bs"
  by (simp_all add: print_summary_def Let_def)

lemma joined_pcs: "joined p = list_all (\<lambda>c. c = Finished) (pcs (Some p))"
  by (simp add: joined_def pcs_def list_all_iff)

lemmas summary_defs = tally_def report_lines_def print_summary_def count_status_def
  failure_report_def duration_def times_out_always_def succeeds_always_def raises_always_def

text \<open>
  Claim C2, as amended. For every completed run over the \<open>N\<close> boxes of the
  inventory with \<open>max_retries\<close> at least 1: once every thread has returned (the
  join barrier), the status of every box is one of \<^verbatim>\<open>success\<close>, \<^verbatim>\<open>failed\<close>,
  \<^verbatim>\<open>timeout\<close> and \<^verbatim>\<open>error\<close>, and the four counts of the summary add up to
  \<open>N\<close>. With \<open>max_retries = 0\<close> every thread returns without an attempt, every
  box is still \<^verbatim>\<open>pending\<close> after the join and the four counts add up to 0: the
  concrete run below.
\<close>

theorem joined_run_all_terminal:
  assumes "0 < max_retries d"
    and "run d w sched (fan_out d (new_boxes rows)) = Some p"
    and "joined p"
  shows "(\<forall>b \<in> set (boxes_of p). terminal (status b)) \<and>
         success_count (print_summary (boxes_of p)) + failed_count (print_summary (boxes_of p)) +
         timeout_count (print_summary (boxes_of p)) + error_count (print_summary (boxes_of p))
           = length rows"
proof -
  note inv = run_thread_inv [OF assms(2)]
  have fin: "\<forall>b \<in> set (boxes_of p). terminal (status b)"
  proof
    fix b assume "b \<in> set (boxes_of p)"
    then obtain i where i: "i < length (threads p)" and b: "b = snd (threads p ! i)"
      by (auto simp: boxes_of_def in_set_conv_nth)
    from joined_nth [OF assms(3) i] b have t: "threads p ! i = (Finished, b)"
      by (cases "threads p ! i") simp
    from inv i have "thread_inv (max_retries d) (threads p ! i)" by simp
    with t assms(1) show "terminal (status b)" by simp
  qed
  from inv have "length (boxes_of p) = length rows" by (simp add: boxes_of_def)
  with count_terminal [OF fin] fin show ?thesis by simp
qed

theorem joined_run_all_terminal_witness:
  "0 < max_retries (demo_deployer 2 2) \<and>
   pcs (demo_run 2 2 fails_always [0, 1, 0, 1, 0, 0, 1, 1, 0, 1, 0, 1, 0, 1, 0, 1])
     = [Finished, Finished] \<and>
   seen status (demo_run 2 2 fails_always [0, 1, 0, 1, 0, 0, 1, 1, 0, 1, 0, 1, 0, 1, 0, 1])
     = [''failed'', ''failed''] \<and>
   sum_list (tally (demo_run 2 2 fails_always [0, 1, 0, 1, 0, 0, 1, 1, 0, 1, 0, 1, 0, 1, 0, 1])) = 2"
proof -
  let ?r = "demo_run 2 2 fails_always [0, 1, 0, 1, 0, 0, 1, 1, 0, 1, 0, 1, 0, 1, 0, 1]"
  have pc: "pcs ?r = [Finished, Finished]" by (simp add: demo_defs)
  have st: "seen status ?r = [''failed'', ''failed'']" by (simp add: demo_defs)
  from pc obtain p where p: "?r = Some p" by (cases ?r) (simp_all add: pcs_def)
  from pc have j: "joined p" unfolding p by (simp add: joined_pcs)
  have R: "0 < max_retries (demo_deployer 2 2)" by (simp add: demo_deployer_def)
  from p have run: "run (demo_deployer 2 2) (demo_feeds fails_always)
      [0, 1, 0, 1, 0, 0, 1, 1, 0, 1, 0, 1, 0, 1, 0, 1]
      (fan_out (demo_deployer 2 2) (new_boxes demo_rows)) = Some p"
    by (simp add: demo_run_def demo_boxes_def)
  from joined_run_all_terminal [OF R run j] have "sum_list (tally (Some p)) = 2"
    by (simp add: tally_def demo_rows_def)
  then have "sum_list (tally ?r) = 2" unfolding p .
  with pc st R show ?thesis by simp
qed

text \<open>
  Two boxes, one permit, \<^verbatim>\<open>--retries 0\<close>: both threads acquire, leave the loop
  at once, release and return; both boxes are pending and every count is 0.
\<close>

theorem zero_retries_leave_pending:
  "pcs (demo_run 1 0 fails_always [0, 0, 0, 1, 1, 1]) = [Finished, Finished] \<and>
   seen status (demo_run 1 0 fails_always [0, 0, 0, 1, 1, 1]) = [''pending'', ''pending''] \<and>
   tally (demo_run 1 0 fails_always [0, 0, 0, 1, 1, 1]) = [0, 0, 0, 0]"
  by (simp add: demo_defs summary_defs)

text \<open>
  Every interleaving that passes the join barrier leaves the boxes that
  \<open>deploy_goad_on_box\<close> computes one by one; with no permit no thread ever leaves
  its \<^verbatim>\<open>acquire()\<close>.
\<close>

lemma joined_is_sequential:
  assumes "run d w sched (fan_out d boxes) = Some p" and "joined p"
  shows "boxes_of p = joined_boxes d w boxes"
proof (rule nth_equalityI)
  note rc = run_complete [OF assms(1)]
  from rc show "length (boxes_of p) = length (joined_boxes d w boxes)"
    by (simp add: boxes_of_def joined_boxes_def)
  fix i assume "i < length (boxes_of p)"
  then have i: "i < length (threads p)" by (simp add: boxes_of_def)
  from joined_nth [OF assms(2) i] have "threads p ! i = (Finished, snd (threads p ! i))"
    by (cases "threads p ! i") simp
  with rc i have "snd (threads p ! i) =
      deploy_goad_on_box d (stamp (w i)) (ssh (w i)) (boxes ! i)"
    by (metis complete.simps(6))
  with i rc show "boxes_of p ! i = joined_boxes d w boxes ! i"
    by (simp add: boxes_of_def joined_boxes_def)
qed

lemma no_permit_no_progress:
  assumes "max_threads d \<le> 0" and "run d w sched (fan_out d boxes) = Some p"
  shows "sched = [] \<and> p = fan_out d boxes"
proof (cases sched)
  case Nil
  with assms(2) show ?thesis by simp
next
  case (Cons i rest)
  from assms(1) have "step d w i (fan_out d boxes) = None"
    by (simp add: step_def fan_out_def)
  with Cons assms(2) show ?thesis by simp
qed

text \<open>
  Every step uses up work, so a run has at most as many steps as the work of its
  first pool; and with at least one permit, a pool that has not passed the join
  barrier has a thread that can step.
\<close>

lemma thread_step_decreases:
  "fst t \<noteq> Finished \<Longrightarrow> steps_left (max_retries d) (thread_step d f t) < steps_left (max_retries d) t"
proof (cases t)
  case (Pair c b)
  assume nf: "fst t \<noteq> Finished"
  show ?thesis
  proof (cases c)
    case (Running n)
    obtain b' k where bc: "conclude_attempt (max_retries d) (ssh f n) n b = (b', k)"
      by (cases "conclude_attempt (max_retries d) (ssh f n) n b")
    with Pair Running show ?thesis by (cases k) simp_all
  next
    case (LoopHead n s)
    with Pair show ?thesis by (auto simp: nat_diff_distrib)
  qed (use Pair nf in simp_all)
qed

lemma sum_list_update_less:
  "i < length xs \<Longrightarrow> f y < f (xs ! i) \<Longrightarrow>
   sum_list (map f (xs[i := y])) < (sum_list (map f xs) :: nat)"
proof (induction xs arbitrary: i)
  case Nil
  then show ?case by simp
next
  case (Cons x xs)
  then show ?case by (cases i) auto
qed

lemma step_decreases:
  assumes "step d w i p = Some p'"
  shows "work d p' < work d p"
proof -
  from step_shape [OF assms] have i: "i < length (threads p)"
    and tp: "threads p' = (threads p)[i := thread_step d (w i) (threads p ! i)]" by simp_all
  from assms i have "fst (threads p ! i) \<noteq> Finished"
    by (auto simp: step_def)
  from sum_list_update_less [OF i, of "steps_left (max_retries d)", OF thread_step_decreases [OF this]]
  show ?thesis by (simp add: work_def tp)
qed

lemma run_length_bound:
  "run d w sched p = Some p' \<Longrightarrow> length sched + work d p' \<le> work d p"
proof (induction sched arbitrary: p)
  case Nil
  then show ?case by simp
next
  case (Cons i sched)
  then obtain q where q: "step d w i p = Some q" and r: "run d w sched q = Some p'"
    by (auto split: option.splits)
  from Cons.IH [OF r] step_decreases [OF q] show ?case by simp
qed

lemma deadlock_free:
  assumes "0 < max_threads d"
    and "run d w sched (fan_out d boxes) = Some p"
    and "\<not> joined p"
  shows "\<exists>i < length boxes. step d w i p \<noteq> None"
proof -
  from run_complete [OF assms(2)] have len: "length (threads p) = length boxes" by simp
  from run_semaphore [OF assms(2)]
  have sem: "length (filter holds_slot (threads p)) + semaphore p = nat (max_threads d)"
    by (simp add: fan_out_no_holders) (simp add: fan_out_def)
  show ?thesis
  proof (cases "\<exists>i < length (threads p). \<exists>n. fst (threads p ! i) = Sleeping n")
    case True
    then obtain i n where i: "i < length (threads p)" and "fst (threads p ! i) = Sleeping n"
      by auto
    then have "step d w i p \<noteq> None" by (simp add: step_def)
    with i len show ?thesis by auto
  next
    case False
    then have "\<And>t n. t \<in> set (threads p) \<Longrightarrow> fst t \<noteq> Sleeping n"
      by (metis in_set_conv_nth)
    then have nl: "\<not> lock_held p"
      by (auto simp: lock_held_def list_ex_iff split: pc.splits)
    show ?thesis
    proof (cases "\<exists>i < length (threads p). holds_slot (threads p ! i)")
      case True
      then obtain i where i: "i < length (threads p)" and h: "holds_slot (threads p ! i)" by auto
      obtain c b where t: "threads p ! i = (c, b)" by (cases "threads p ! i")
      with h i nl have "step d w i p \<noteq> None"
        by (cases c) (auto simp: step_def)
      with i len show ?thesis by auto
    next
      case False
      then have "\<And>t. t \<in> set (threads p) \<Longrightarrow> \<not> holds_slot t"
        by (metis in_set_conv_nth)
      then have "filter holds_slot (threads p) = []"
        by (simp add: filter_empty_conv)
      with sem assms(1) have s: "semaphore p \<noteq> 0" by simp
      from assms(3) obtain i where i: "i < length (threads p)"
        and nf: "fst (threads p ! i) \<noteq> Finished"
        by (auto simp: joined_def list_all_length)
      from False i have "\<not> holds_slot (threads p ! i)" by simp
      with nf have "fst (threads p ! i) = Acquire"
        by (cases "threads p ! i", cases "fst (threads p ! i)") auto
      with i s have "step d w i p \<noteq> None" by (simp add: step_def)
      with i len show ?thesis by auto
    qed
  qed
qed

section \<open>The status between two attempts\<close>


lemma retry_step:
  assumes "outcome a = Completed rc out err" "rc \<noteq> 0" "n < R"
  shows "snd (conclude_attempt R a n b) = Sleep \<and>
         status (fst (conclude_attempt R a n b)) = status b \<and>
         end_time (fst (conclude_attempt R a n b)) = Some (finished_at a)"
  using assms by (simp add: conclude_attempt_def Let_def)




text \<open>
  Claim C7, as amended. At every point of a run, a target whose status is terminal
  (\<^verbatim>\<open>success\<close>, \<^verbatim>\<open>failed\<close>, \<^verbatim>\<open>timeout\<close> or \<^verbatim>\<open>error\<close>) has its end
  time set. The converse fails: line 448 assigns \<^verbatim>\<open>box.end_time\<close> whenever the
  remote job returns, so after an attempt \<open>n < R\<close> that ends with a non-zero exit
  code the end time is set while the status is still \<^verbatim>\<open>running\<close>.
\<close>

theorem terminal_has_end_time:
  assumes "run d w sched (fan_out d (new_boxes rows)) = Some p"
    and "i < length rows"
    and "threads p ! i = (c, b)"
  shows "(terminal (status b) \<longrightarrow> end_time b \<noteq> None) \<and>
         (\<forall>n rc out err.
            c = Running n \<and> outcome (ssh (w i) n) = Completed rc out err \<and> rc \<noteq> 0 \<and>
            n < max_retries d \<longrightarrow>
              end_time (snd (thread_step d (w i) (c, b))) = Some (finished_at (ssh (w i) n)) \<and>
              status (snd (thread_step d (w i) (c, b))) = ''running'')"
proof -
  from run_thread_inv [OF assms(1)] assms(2,3)
  have inv: "thread_inv (max_retries d) (c, b)" by auto
  then have bi: "box_inv b" by (cases c) simp_all
  then have e: "terminal (status b) \<longrightarrow> end_time b \<noteq> None" by (simp add: box_inv_def)
  have "\<forall>n rc out err.
            c = Running n \<and> outcome (ssh (w i) n) = Completed rc out err \<and> rc \<noteq> 0 \<and>
            n < max_retries d \<longrightarrow>
              end_time (snd (thread_step d (w i) (c, b))) = Some (finished_at (ssh (w i) n)) \<and>
              status (snd (thread_step d (w i) (c, b))) = ''running''"
  proof (intro allI impI)
    fix n rc out err
    assume a: "c = Running n \<and> outcome (ssh (w i) n) = Completed rc out err \<and> rc \<noteq> 0 \<and>
            n < max_retries d"
    with inv have st: "status b = ''running''" by simp
    from a retry_step [of "ssh (w i) n" rc out err n "max_retries d" b] st
    show "end_time (snd (thread_step d (w i) (c, b))) = Some (finished_at (ssh (w i) n)) \<and>
              status (snd (thread_step d (w i) (c, b))) = ''running''"
      by (cases "conclude_attempt (max_retries d) (ssh (w i) n) n b") auto
  qed
  with e show ?thesis by blast
qed

theorem terminal_has_end_time_witness:
  "seen status (demo_run 1 2 fails_always [0, 0, 0, 0, 0, 0, 0, 0]) = [''failed'', ''pending''] \<and>
   terminal ''failed'' \<and>
   hd (seen end_time (demo_run 1 2 fails_always [0, 0, 0, 0, 0, 0, 0, 0])) \<noteq> None"
proof -
  let ?r = "demo_run 1 2 fails_always [0, 0, 0, 0, 0, 0, 0, 0]"
  have st: "seen status ?r = [''failed'', ''pending'']" by (simp add: demo_defs)
  then obtain p where p: "?r = Some p" by (cases ?r) (simp_all add: seen_def)
  from st have len: "length (threads p) = 2" and s0: "status (snd (threads p ! 0)) = ''failed''"
    unfolding p seen_def boxes_of_def by (simp_all add: map_eq_Cons_conv) auto
  from p have run: "run (demo_deployer 1 2) (demo_feeds fails_always) [0, 0, 0, 0, 0, 0, 0, 0]
      (fan_out (demo_deployer 1 2) (new_boxes demo_rows)) = Some p"
    by (simp add: demo_run_def demo_boxes_def)
  have i: "0 < length demo_rows" by (simp add: demo_rows_def)
  have t: "threads p ! 0 = (fst (threads p ! 0), snd (threads p ! 0))" by simp
  have tf: "terminal ''failed''" by (simp add: terminal_def)
  from terminal_has_end_time [OF run i t] s0 tf have "end_time (snd (threads p ! 0)) \<noteq> None"
    by simp
  with len have "hd (seen end_time (Some p)) \<noteq> None"
    by (cases "threads p") (simp_all add: seen_def boxes_of_def)
  with st tf show ?thesis unfolding p by simp
qed

text \<open>
  The first box in the sleep after its first failed attempt: the end time is set,
  the status is \<^verbatim>\<open>running\<close>, which is not terminal.
\<close>

theorem end_time_set_while_running:
  "pcs (demo_run 1 2 fails_always [0, 0, 0]) = [Sleeping 1, Acquire] \<and>
   seen status (demo_run 1 2 fails_always [0, 0, 0]) = [''running'', ''pending''] \<and>
   seen end_time (demo_run 1 2 fails_always [0, 0, 0]) = [Some 160, None] \<and>
   \<not> terminal ''running''"
  by (simp add: demo_defs terminal_def)

section \<open>The failure lines of the summary\<close>










end
